theory Spec2Isabelle
  imports Main
begin

section \<open>Python values used by pyramid\_multiauth\<close>

text \<open>
  The exceptions that the module itself can raise, or that the host's configuration
  facility can raise on its behalf (\<open>HostError\<close>: a failed dotted-name resolution or a
  failed include).
\<close>

datatype pyerror = TypeError | KeyError | ValueError | HostError

type_synonym userid = string
type_synonym principal = string
type_synonym header = "string \<times> string"

text \<open>The two pseudo-principals imported from \<open>pyramid.security\<close>.\<close>

definition Everyone :: principal where
  "Everyone = ''system.Everyone''"

definition Authenticated :: principal where
  "Authenticated = ''system.Authenticated''"

text \<open>
  A Python \<open>set\<close> of principals is kept as a duplicate-free list. \<open>list(principals)\<close>
  enumerates a set in an order Python does not specify; the model enumerates in
  insertion order, and every statement below reads the result through \<open>set\<close> and
  \<open>distinct\<close> only.
\<close>

definition set_add :: "'a \<Rightarrow> 'a list \<Rightarrow> 'a list" where
  "set_add x xs = (if x \<in> set xs then xs else xs @ [x])"

definition set_update :: "'a list \<Rightarrow> 'a list \<Rightarrow> 'a list" where
  "set_update xs ys = fold set_add ys xs"

section \<open>Backends and the group callback\<close>

text \<open>
  A backend is an object with the five operations of \<open>IAuthenticationPolicy\<close>. Objects
  are compared with \<open>is\<close> in \<open>grab_policies\<close>, so each carries its identity \<open>oid\<close>, and
  tested with \<open>if policy:\<close> there, so each carries its truth value \<open>truthy\<close> (true for
  an instance unless its class defines \<open>__nonzero__\<close> or \<open>__len__\<close> to say otherwise).
  The operations of a backend are taken to return; a backend that raises aborts the
  composite's operation in the source and is outside the model.
\<close>

record ('r, 'k) policy =
  oid :: nat
  truthy :: bool
  policy_authenticated_userid :: "'r \<Rightarrow> userid option"
  policy_unauthenticated_userid :: "'r \<Rightarrow> userid option"
  policy_effective_principals :: "'r \<Rightarrow> principal list"
  policy_remember :: "'r \<Rightarrow> principal \<Rightarrow> 'k \<Rightarrow> header list"
  policy_forget :: "'r \<Rightarrow> header list"

text \<open>
  The callback is a Python callable. It receives the positional arguments of the call
  as a list, so that the model records how many arguments each call site passes, and it
  returns the groups, \<open>None\<close>, or raises.
\<close>

datatype 'r pyarg = ArgUserid userid | ArgRequest 'r

type_synonym 'r callback = "'r pyarg list \<Rightarrow> pyerror + principal list option"

record ('r, 'k) multiauth =
  policies :: "('r, 'k) policy list"
  callback :: "'r callback option"

section \<open>MultiAuthenticationPolicy\<close>

text \<open>
  \<open>authenticated_userid\<close>: the loop assigns \<open>userid\<close> at every backend and leaves
  (\<open>break\<close>) only inside the two nested tests on the callback.
\<close>

fun authenticated_userid_loop ::
  "'r callback option \<Rightarrow> 'r \<Rightarrow> userid option \<Rightarrow> ('r, 'k) policy list \<Rightarrow> pyerror + userid option"
where
  "authenticated_userid_loop cb request userid [] = Inr userid"
| "authenticated_userid_loop cb request userid (p # rest) =
     (case policy_authenticated_userid p request of
        None \<Rightarrow> authenticated_userid_loop cb request None rest
      | Some u \<Rightarrow>
          (case cb of
             None \<Rightarrow> authenticated_userid_loop cb request (Some u) rest
           | Some f \<Rightarrow>
               (case f [ArgUserid u] of
                  Inl e \<Rightarrow> Inl e
                | Inr None \<Rightarrow> authenticated_userid_loop cb request (Some u) rest
                | Inr (Some groups) \<Rightarrow> Inr (Some u))))"

definition authenticated_userid :: "('r, 'k) multiauth \<Rightarrow> 'r \<Rightarrow> pyerror + userid option" where
  "authenticated_userid self request =
     authenticated_userid_loop (callback self) request None (policies self)"

fun unauthenticated_userid_loop ::
  "'r \<Rightarrow> userid option \<Rightarrow> ('r, 'k) policy list \<Rightarrow> userid option"
where
  "unauthenticated_userid_loop request userid [] = userid"
| "unauthenticated_userid_loop request userid (p # rest) =
     (case policy_unauthenticated_userid p request of
        None \<Rightarrow> unauthenticated_userid_loop request None rest
      | Some u \<Rightarrow> Some u)"

definition unauthenticated_userid :: "('r, 'k) multiauth \<Rightarrow> 'r \<Rightarrow> userid option" where
  "unauthenticated_userid self request =
     unauthenticated_userid_loop request None (policies self)"

fun effective_principals_loop ::
  "principal list \<Rightarrow> 'r \<Rightarrow> ('r, 'k) policy list \<Rightarrow> principal list"
where
  "effective_principals_loop principals request [] = principals"
| "effective_principals_loop principals request (p # rest) =
     effective_principals_loop
       (set_update principals (policy_effective_principals p request)) request rest"

text \<open>
  \<open>principals.update(groups)\<close> raises \<open>TypeError\<close> when \<open>groups\<close> is \<open>None\<close>; the two
  \<open>add\<close> calls before it are then lost with the local set.
\<close>

definition effective_principals ::
  "('r, 'k) multiauth \<Rightarrow> 'r \<Rightarrow> pyerror + principal list"
where
  "effective_principals self request =
     (let principals =
        effective_principals_loop (set_update [] [Everyone]) request (policies self)
      in case callback self of
           None \<Rightarrow> Inr principals
         | Some f \<Rightarrow>
             (case unauthenticated_userid self request of
                None \<Rightarrow> Inr principals
              | Some u \<Rightarrow>
                  (case f [ArgUserid u, ArgRequest request] of
                     Inl e \<Rightarrow> Inl e
                   | Inr None \<Rightarrow> Inl TypeError
                   | Inr (Some groups) \<Rightarrow>
                       Inr (set_update (set_add Authenticated (set_add u principals)) groups))))"

fun remember_loop ::
  "header list \<Rightarrow> 'r \<Rightarrow> principal \<Rightarrow> 'k \<Rightarrow> ('r, 'k) policy list \<Rightarrow> header list"
where
  "remember_loop headers request who kw [] = headers"
| "remember_loop headers request who kw (p # rest) =
     remember_loop (headers @ policy_remember p request who kw) request who kw rest"

definition remember ::
  "('r, 'k) multiauth \<Rightarrow> 'r \<Rightarrow> principal \<Rightarrow> 'k \<Rightarrow> header list"
where
  "remember self request who kw =
     remember_loop [] request who kw (policies self)"

fun forget_loop :: "header list \<Rightarrow> 'r \<Rightarrow> ('r, 'k) policy list \<Rightarrow> header list" where
  "forget_loop headers request [] = headers"
| "forget_loop headers request (p # rest) =
     forget_loop (headers @ policy_forget p request) request rest"

definition forget :: "('r, 'k) multiauth \<Rightarrow> 'r \<Rightarrow> header list" where
  "forget self request = forget_loop [] request (policies self)"

section \<open>Example backends and callbacks\<close>

text \<open>
  A backend that answers every request the same way, in the manner of the fixed
  policies a test of the composite stacks up.
\<close>

definition fixed_policy ::
  "nat \<Rightarrow> userid option \<Rightarrow> principal list \<Rightarrow> header list \<Rightarrow> (unit, unit) policy"
where
  "fixed_policy i u ps hs =
     \<lparr> oid = i,
       truthy = True,
       policy_authenticated_userid = (\<lambda>_. u),
       policy_unauthenticated_userid = (\<lambda>_. u),
       policy_effective_principals = (\<lambda>_. ps),
       policy_remember = (\<lambda>_ _ _. hs),
       policy_forget = (\<lambda>_. hs) \<rparr>"

text \<open>A callback declared as \<open>def groupfinder(userid)\<close>: any other arity is a \<open>TypeError\<close>.\<close>

definition userid_callback :: "(userid \<Rightarrow> principal list option) \<Rightarrow> 'r callback" where
  "userid_callback g args =
     (case args of [ArgUserid u] \<Rightarrow> Inr (g u) | _ \<Rightarrow> Inl TypeError)"

text \<open>A callback declared as \<open>def groupfinder(userid, request=None)\<close>.\<close>

definition lenient_callback :: "(userid \<Rightarrow> principal list option) \<Rightarrow> 'r callback" where
  "lenient_callback g args =
     (case args of
        [ArgUserid u] \<Rightarrow> Inr (g u)
      | [ArgUserid u, ArgRequest r] \<Rightarrow> Inr (g u)
      | _ \<Rightarrow> Inl TypeError)"

definition only_bob :: "userid \<Rightarrow> principal list option" where
  "only_bob u = (if u = ''bob'' then Some [''group:staff''] else None)"

definition backend_a :: "(unit, unit) policy" where
  "backend_a = fixed_policy 1 (Some ''alice'') [''group:admins''] [(''H1'', ''a'')]"

definition backend_b :: "(unit, unit) policy" where
  "backend_b = fixed_policy 2 None [''group:users''] []"

definition backend_c :: "(unit, unit) policy" where
  "backend_c = fixed_policy 3 (Some ''bob'') [] [(''H2'', ''b''), (''H3'', ''c'')]"

text \<open>
  A backend of the usual kind, whose own principals name the authenticated caller.
\<close>

definition backend_session :: "(unit, unit) policy" where
  "backend_session =
     fixed_policy 4 (Some ''carol'') [''system.Everyone'', ''system.Authenticated'', ''carol''] []"

text \<open>A backend whose class gives its instances the truth value false.\<close>

definition backend_falsy :: "(unit, unit) policy" where
  "backend_falsy = (fixed_policy 5 (Some ''dave'') [] [])\<lparr> truthy := False \<rparr>"

section \<open>Strings and settings\<close>

text \<open>\<open>s.startswith(pre)\<close>.\<close>

definition startswith :: "string \<Rightarrow> string \<Rightarrow> bool" where
  "startswith s pre = (take (length pre) s = pre)"

text \<open>
  \<open>s.split(".", 1)\<close>: one element when \<open>s\<close> has no dot, otherwise the text before the
  first dot and the text after it.
\<close>

definition split_dot1 :: "string \<Rightarrow> string list" where
  "split_dot1 s =
     (if CHR ''.'' \<in> set s
      then [takeWhile (\<lambda>c. c \<noteq> CHR ''.'') s, tl (dropWhile (\<lambda>c. c \<noteq> CHR ''.'') s)]
      else [s])"

text \<open>\<open>s.split()\<close>: the maximal runs of non-whitespace characters, in order.\<close>

definition is_space :: "char \<Rightarrow> bool" where
  "is_space c = (c \<in> set [CHR '' '', CHR 0x09, CHR 0x0A, CHR 0x0B, CHR 0x0C, CHR 0x0D])"

fun split_ws_from :: "string \<Rightarrow> string \<Rightarrow> string list" where
  "split_ws_from w [] = (if w = [] then [] else [w])"
| "split_ws_from w (c # cs) =
     (if is_space c
      then (if w = [] then split_ws_from [] cs else w # split_ws_from [] cs)
      else split_ws_from (w @ [c]) cs)"

definition split_ws :: "string \<Rightarrow> string list" where
  "split_ws s = split_ws_from [] s"

text \<open>
  The settings are a dictionary from strings to strings, kept as the list of its items
  in the order \<open>iteritems()\<close> visits them (keys are distinct in a dictionary).
\<close>

type_synonym settings = "(string \<times> string) list"

type_synonym kwds = "string \<rightharpoonup> string"

type_synonym definitions = "string \<rightharpoonup> kwds"

text \<open>
  The first loop of \<open>includeme\<close>. Unpacking \<open>name.split(".", 1)\<close> into two names raises
  \<open>ValueError\<close> when the rest of the key has no dot.
\<close>

fun policy_definitions_loop :: "definitions \<Rightarrow> settings \<Rightarrow> pyerror + definitions" where
  "policy_definitions_loop defs [] = Inr defs"
| "policy_definitions_loop defs ((name, v) # rest) =
     (if \<not> startswith name ''multiauth.policy.'' then policy_definitions_loop defs rest
      else
        (case split_dot1 (drop (length ''multiauth.policy.'') name) of
           [policy_name, setting_name] \<Rightarrow>
             (let d = (case defs policy_name of None \<Rightarrow> Map.empty | Some d \<Rightarrow> d)
              in policy_definitions_loop (defs(policy_name \<mapsto> d(setting_name \<mapsto> v))) rest)
         | _ \<Rightarrow> Inl ValueError))"

section \<open>The host configuration\<close>

text \<open>
  What \<open>includeme\<close> and \<open>policy_factory_from_include\<close> read of the configurator: the
  settings, the \<open>IAuthenticationPolicy\<close> utility of the registry, and the pending
  actions, each a discriminator and a callable that works on the registry. What
  \<open>includeme\<close> asks of the configurator is logged in \<open>calls\<close>; how the host acts on
  these calls (autocommit, conflict resolution) is the host's business.
\<close>

datatype discriminator = IAuthenticationPolicy | OtherDiscriminator string

type_synonym ('r, 'k) registry = "('r, 'k) policy option"

type_synonym ('r, 'k) register = "('r, 'k) registry \<Rightarrow> pyerror + ('r, 'k) registry"

type_synonym ('r, 'k) action = "discriminator \<times> ('r, 'k) register"

text \<open>
  A policy factory is called with keyword arguments at commit time; it may work on the
  registry and returns a policy object or \<open>None\<close>, or raises.
\<close>

type_synonym ('r, 'k) factory =
  "kwds \<Rightarrow> ('r, 'k) registry \<Rightarrow> pyerror + (('r, 'k) policy option \<times> ('r, 'k) registry)"

datatype authorization_policy = ACLAuthorizationPolicy | HostAuthorizationPolicy string

datatype ('r, 'k) config_call =
    Set_authentication_policy "('r, 'k) multiauth"
  | Action_grab_policies
  | Set_authorization_policy authorization_policy

record ('r, 'k) config =
  settings :: settings
  registry :: "('r, 'k) registry"
  actions :: "('r, 'k) action list"
  calls :: "('r, 'k) config_call list"

text \<open>
  The configurator's own methods are not part of the module: \<open>maybe_dotted\<close> (read at
  the two types it is used at) and \<open>include\<close>.
\<close>

record ('r, 'k) host =
  maybe_dotted_callback :: "string \<Rightarrow> pyerror + 'r callback"
  maybe_dotted_factory :: "string \<Rightarrow> pyerror + ('r, 'k) factory"
  config_include :: "string \<Rightarrow> ('r, 'k) config \<Rightarrow> pyerror + ('r, 'k) config"

section \<open>policy\_factory\_from\_include\<close>

text \<open>\<open>a is b\<close> on values that are a policy object or \<open>None\<close>.\<close>

fun is_object :: "('r, 'k) policy option \<Rightarrow> ('r, 'k) policy option \<Rightarrow> bool" where
  "is_object None None = True"
| "is_object (Some p) (Some q) = (oid p = oid q)"
| "is_object _ _ = False"

text \<open>
  The loop over \<open>reversed(config.action_state.actions)\<close>, given the reversed list: the
  callable of the first action whose discriminator is \<open>IAuthenticationPolicy\<close>.
\<close>

fun find_register :: "('r, 'k) action list \<Rightarrow> ('r, 'k) register option" where
  "find_register [] = None"
| "find_register ((d, register) # rest) =
     (if d \<noteq> IAuthenticationPolicy then find_register rest else Some register)"

text \<open>The three closures the function can return.\<close>

definition return_policy :: "('r, 'k) policy option \<Rightarrow> ('r, 'k) factory" where
  "return_policy p kw reg = Inr (p, reg)"

definition grab_policy :: "('r, 'k) register \<Rightarrow> ('r, 'k) factory" where
  "grab_policy register kw reg =
     (case register reg of Inl e \<Rightarrow> Inl e | Inr reg' \<Rightarrow> Inr (reg', reg'))"

definition policy_factory_from_include ::
  "('r, 'k) host \<Rightarrow> ('r, 'k) config \<Rightarrow> string \<Rightarrow> pyerror + (('r, 'k) factory \<times> ('r, 'k) config)"
where
  "policy_factory_from_include h config module =
     (let orig_policy = registry config
      in case config_include h module config of
           Inl e \<Rightarrow> Inl e
         | Inr config' \<Rightarrow>
             (let policy = registry config'
              in if policy \<noteq> None \<and> \<not> is_object policy orig_policy
                 then Inr (return_policy policy, config')
                 else
                   (case find_register (rev (actions config')) of
                      Some register \<Rightarrow> Inr (grab_policy register, config')
                    | None \<Rightarrow> Inr (return_policy None, config'))))"

section \<open>includeme\<close>

text \<open>
  The body of the loop over \<open>reversed(policy_names)\<close>. \<open>definition.pop("use")\<close> raises
  \<open>KeyError\<close> when the key is missing and otherwise removes it from the dictionary,
  which \<open>policy_definitions\<close> still holds.
\<close>

definition policy_factory_for ::
  "('r, 'k) host \<Rightarrow> ('r, 'k) config \<Rightarrow> definitions \<Rightarrow> string \<Rightarrow>
     pyerror + ((('r, 'k) factory \<times> kwds) \<times> ('r, 'k) config \<times> definitions)"
where
  "policy_factory_for h config defs policy_name =
     (case defs policy_name of
        Some defn \<Rightarrow>
          (case defn ''use'' of
             None \<Rightarrow> Inl KeyError
           | Some use \<Rightarrow>
               (let defn' = defn(''use'' := None)
                in case maybe_dotted_factory h use of
                     Inl e \<Rightarrow> Inl e
                   | Inr factory \<Rightarrow> Inr ((factory, defn'), config, defs(policy_name \<mapsto> defn'))))
      | None \<Rightarrow>
          (case policy_factory_from_include h config policy_name of
             Inl e \<Rightarrow> Inl e
           | Inr (factory, config') \<Rightarrow> Inr ((factory, Map.empty), config', defs)))"

fun policy_factories_loop ::
  "('r, 'k) host \<Rightarrow> ('r, 'k) config \<Rightarrow> definitions \<Rightarrow> (('r, 'k) factory \<times> kwds) list \<Rightarrow>
     string list \<Rightarrow> pyerror + ((('r, 'k) factory \<times> kwds) list \<times> ('r, 'k) config)"
where
  "policy_factories_loop h config defs policy_factories [] = Inr (policy_factories, config)"
| "policy_factories_loop h config defs policy_factories (policy_name # rest) =
     (case policy_factory_for h config defs policy_name of
        Inl e \<Rightarrow> Inl e
      | Inr (fk, config', defs') \<Rightarrow>
          policy_factories_loop h config' defs' (policy_factories @ [fk]) rest)"

text \<open>
  \<open>grab_policies\<close>, the closure registered as a commit-time action. \<open>pols\<close> is the list
  shared with the composite. \<open>if policy:\<close> is the truth value of what the factory
  returned: false for \<open>None\<close>, and \<open>truthy\<close> for a policy object.
\<close>

fun grab_policies ::
  "(('r, 'k) factory \<times> kwds) list \<Rightarrow> ('r, 'k) registry \<Rightarrow> ('r, 'k) policy list \<Rightarrow>
     pyerror + (('r, 'k) registry \<times> ('r, 'k) policy list)"
where
  "grab_policies [] reg pols = Inr (reg, pols)"
| "grab_policies ((factory, kw) # rest) reg pols =
     (case factory kw reg of
        Inl e \<Rightarrow> Inl e
      | Inr (None, reg') \<Rightarrow> grab_policies rest reg' pols
      | Inr (Some policy, reg') \<Rightarrow>
          (if truthy policy
           then (case pols of
                   [] \<Rightarrow> grab_policies rest reg' (policy # pols)
                 | first # _ \<Rightarrow>
                     (if oid policy \<noteq> oid first then grab_policies rest reg' (policy # pols)
                      else grab_policies rest reg' pols))
           else grab_policies rest reg' pols))"

text \<open>
  What \<open>includeme\<close> leaves behind: the configurator, the composite it installed, and
  the factories that \<open>grab_policies\<close> closes over.
\<close>

record ('r, 'k) install =
  install_config :: "('r, 'k) config"
  authn_policy :: "('r, 'k) multiauth"
  policy_factories :: "(('r, 'k) factory \<times> kwds) list"

definition includeme :: "('r, 'k) host \<Rightarrow> ('r, 'k) config \<Rightarrow> pyerror + ('r, 'k) install" where
  "includeme h config =
     (let st = settings config
      in case (case map_of st ''multiauth.policy.groupfinder'' of
                 None \<Rightarrow> Inr None
               | Some dotted \<Rightarrow>
                   (case maybe_dotted_callback h dotted of
                      Inl e \<Rightarrow> Inl e
                    | Inr f \<Rightarrow> Inr (Some f))) of
           Inl e \<Rightarrow> Inl e
         | Inr groupfinder \<Rightarrow>
             (case policy_definitions_loop Map.empty st of
                Inl e \<Rightarrow> Inl e
              | Inr policy_definitions \<Rightarrow>
                  (let policy_names =
                     split_ws (case map_of st ''multiauth.policies'' of
                                 None \<Rightarrow> [] | Some s \<Rightarrow> s)
                   in case policy_factories_loop h config policy_definitions []
                             (rev policy_names) of
                        Inl e \<Rightarrow> Inl e
                      | Inr (fs, config') \<Rightarrow>
                          (let authn = \<lparr> policies = [], callback = groupfinder \<rparr>
                           in Inr \<lparr> install_config =
                                      config'\<lparr> calls := calls config' @
                                        [Set_authentication_policy authn,
                                         Action_grab_policies,
                                         Set_authorization_policy ACLAuthorizationPolicy] \<rparr>,
                                    authn_policy = authn,
                                    policy_factories = fs \<rparr>))))"

text \<open>
  The commit-time action: \<open>grab_policies\<close> fills the list that the installed composite
  holds.
\<close>

definition run_grab_policies ::
  "('r, 'k) install \<Rightarrow> ('r, 'k) registry \<Rightarrow> pyerror + (('r, 'k) registry \<times> ('r, 'k) multiauth)"
where
  "run_grab_policies inst reg =
     (case grab_policies (policy_factories inst) reg (policies (authn_policy inst)) of
        Inl e \<Rightarrow> Inl e
      | Inr (reg', pols) \<Rightarrow> Inr (reg', (authn_policy inst)\<lparr> policies := pols \<rparr>))"

text \<open>
  \<open>factory_results fs reg rs\<close>: called one after the other from registry \<open>reg\<close>, the
  factories return the values \<open>rs\<close>, none raising.
\<close>

fun factory_results ::
  "(('r, 'k) factory \<times> kwds) list \<Rightarrow> ('r, 'k) registry \<Rightarrow> ('r, 'k) policy option list \<Rightarrow> bool"
where
  "factory_results [] reg [] = True"
| "factory_results ((factory, kw) # fs) reg (r # rs) =
     (case factory kw reg of
        Inl e \<Rightarrow> False
      | Inr (r', reg') \<Rightarrow> r' = r \<and> factory_results fs reg' rs)"
| "factory_results _ reg _ = False"

text \<open>
  \<open>factories_yield h config defs names reg bs\<close> follows one name after the other
  through the body of the loop of \<open>includeme\<close>, from the configurator \<open>config\<close> and the
  definitions \<open>defs\<close>, and calls the factory made for each name, in the same order,
  from the registry \<open>reg\<close>: every step succeeds, and the factory made for the \<open>i\<close>-th
  name returns the policy object \<open>bs ! i\<close>.
\<close>

fun factories_yield ::
  "('r, 'k) host \<Rightarrow> ('r, 'k) config \<Rightarrow> definitions \<Rightarrow> string list \<Rightarrow> ('r, 'k) registry \<Rightarrow>
     ('r, 'k) policy list \<Rightarrow> bool"
where
  "factories_yield h config defs [] reg [] = True"
| "factories_yield h config defs (policy_name # names) reg (b # bs) =
     (case policy_factory_for h config defs policy_name of
        Inl e \<Rightarrow> False
      | Inr ((factory, kw), config', defs') \<Rightarrow>
          (case factory kw reg of
             Inl e \<Rightarrow> False
           | Inr (None, reg') \<Rightarrow> False
           | Inr (Some policy, reg') \<Rightarrow>
               policy = b \<and> factories_yield h config' defs' names reg' bs))"
| "factories_yield h config defs _ reg _ = False"

section \<open>Example configurations\<close>

text \<open>A factory that hands out the given object whatever the keyword arguments.\<close>

definition make_policy :: "('r, 'k) policy \<Rightarrow> ('r, 'k) factory" where
  "make_policy p kw reg = Inr (Some p, reg)"

text \<open>
  A host that resolves five dotted names to factories, knows no callback, and whose
  includes register nothing.
\<close>

definition example_host :: "(unit, unit) host" where
  "example_host =
     \<lparr> maybe_dotted_callback = (\<lambda>dotted. Inl HostError),
       maybe_dotted_factory =
         (\<lambda>dotted.
            if dotted = ''tests.policy_a'' then Inr (make_policy backend_a)
            else if dotted = ''tests.policy_b'' then Inr (make_policy backend_b)
            else if dotted = ''tests.policy_c'' then Inr (make_policy backend_c)
            else if dotted = ''tests.shared'' then Inr (make_policy backend_a)
            else if dotted = ''tests.falsy'' then Inr (make_policy backend_falsy)
            else Inl HostError),
       config_include = (\<lambda>module config. Inr config) \<rparr>"

definition config_with :: "settings \<Rightarrow> (unit, unit) config_call list \<Rightarrow> (unit, unit) config" where
  "config_with st cs = \<lparr> settings = st, registry = None, actions = [], calls = cs \<rparr>"

definition settings_abc :: settings where
  "settings_abc =
     [(''multiauth.policies'', ''a b c''),
      (''multiauth.policy.a.use'', ''tests.policy_a''),
      (''multiauth.policy.a.userid'', ''alice''),
      (''multiauth.policy.b.use'', ''tests.policy_b''),
      (''multiauth.policy.c.use'', ''tests.policy_c'')]"

text \<open>Two declarations whose factories hand out one and the same object.\<close>

definition settings_shared :: settings where
  "settings_shared =
     [(''multiauth.policies'', ''a b''),
      (''multiauth.policy.a.use'', ''tests.shared''),
      (''multiauth.policy.b.use'', ''tests.shared'')]"

text \<open>A declaration whose factory hands out an object that is false.\<close>

definition settings_falsy :: settings where
  "settings_falsy =
     [(''multiauth.policies'', ''a f''),
      (''multiauth.policy.a.use'', ''tests.policy_a''),
      (''multiauth.policy.f.use'', ''tests.falsy'')]"

text \<open>A parameter for a policy that has no \<open>use\<close> and is not among the policies to load.\<close>

definition settings_unlisted :: settings where
  "settings_unlisted =
     [(''multiauth.policies'', ''a''),
      (''multiauth.policy.a.use'', ''tests.policy_a''),
      (''multiauth.policy.spare.userid'', ''local1'')]"

text \<open>The same parameter, with the policy among those to load.\<close>

definition settings_listed :: settings where
  "settings_listed =
     [(''multiauth.policies'', ''a spare''),
      (''multiauth.policy.a.use'', ''tests.policy_a''),
      (''multiauth.policy.spare.userid'', ''local1'')]"

section \<open>Facts used to evaluate the examples\<close>

lemmas backends =
  backend_a_def backend_b_def backend_c_def backend_session_def backend_falsy_def fixed_policy_def

lemmas includeme_eval =
  includeme_def config_with_def example_host_def split_ws_def is_space_def startswith_def
  split_dot1_def policy_factory_for_def policy_factory_from_include_def make_policy_def
  return_policy_def run_grab_policies_def Let_def

section \<open>authenticated\_userid\<close>

text \<open>Without a callback the loop never leaves early: the last backend decides.\<close>

lemma authenticated_userid_loop_no_callback:
  "authenticated_userid_loop None request userid ps =
     Inr (if ps = [] then userid else policy_authenticated_userid (last ps) request)"
  by (induction ps arbitrary: userid) (auto split: option.splits)

text \<open>
  Claim C1. \<open>authenticated_userid\<close> is to return the userid of the first backend in
  list order that gives one, whatever later backends return. Evaluated on two backends
  and no callback, the code returns what the last backend says instead: \<open>None\<close> when
  the second backend knows nobody, and the second backend's userid when it knows
  somebody else, although the first backend said \<open>alice\<close>.
\<close>

theorem authenticated_userid_later_backend_overrides:
  "policy_authenticated_userid backend_a () = Some ''alice''
 \<and> authenticated_userid \<lparr> policies = [backend_a, backend_b], callback = None \<rparr> () = Inr None
 \<and> authenticated_userid \<lparr> policies = [backend_a, backend_c], callback = None \<rparr> () = Inr (Some ''bob'')"
  by (simp add: authenticated_userid_def backends)

text \<open>Backends whose userid the callback rejects, or that give none, are passed over.\<close>

lemma authenticated_userid_loop_rejected:
  assumes "\<forall>q \<in> set pre. \<forall>v. policy_authenticated_userid q request = Some v
             \<longrightarrow> f [ArgUserid v] = Inr None"
  shows "authenticated_userid_loop (Some f) request userid (pre @ rest) =
           authenticated_userid_loop (Some f) request
             (if pre = [] then userid else policy_authenticated_userid (last pre) request) rest"
  using assms by (induction pre arbitrary: userid) (auto split: option.splits)

text \<open>
  Claim C2, as stated: when the callback returns \<open>None\<close> for the first userid found,
  that userid is still returned and later backends are not consulted. The code goes on:
  with \<open>alice\<close> rejected and \<open>bob\<close> accepted, it returns \<open>bob\<close>.
\<close>

theorem authenticated_userid_rejected_falls_through:
  "policy_authenticated_userid backend_a () = Some ''alice''
 \<and> lenient_callback only_bob [ArgUserid ''alice''] = Inr None
 \<and> authenticated_userid
       \<lparr> policies = [backend_a, backend_c], callback = Some (lenient_callback only_bob) \<rparr> ()
     = Inr (Some ''bob'')"
  by (simp add: authenticated_userid_def backends lenient_callback_def only_bob_def)

text \<open>
  Claim C2, amended. With a callback configured, a backend whose userid the callback
  rejects (returns \<open>None\<close> for) does not end the search: if every backend before \<open>p\<close>
  gives no userid or a rejected one, and the callback accepts the userid \<open>u\<close> of \<open>p\<close>,
  then \<open>authenticated_userid\<close> returns \<open>u\<close>.
\<close>

theorem authenticated_userid_first_accepted:
  assumes "callback self = Some f"
    and "policies self = pre @ p # post"
    and "\<forall>q \<in> set pre. \<forall>v. policy_authenticated_userid q request = Some v
            \<longrightarrow> f [ArgUserid v] = Inr None"
    and "policy_authenticated_userid p request = Some u"
    and "f [ArgUserid u] = Inr (Some groups)"
  shows "authenticated_userid self request = Inr (Some u)"
  using assms(1,2,4,5) authenticated_userid_loop_rejected [OF assms(3), of None "p # post"]
  by (simp add: authenticated_userid_def)

theorem authenticated_userid_first_accepted_witness:
  "authenticated_userid
     \<lparr> policies = [backend_b, backend_a, backend_c, backend_session],
       callback = Some (lenient_callback only_bob) \<rparr> ()
   = Inr (Some ''bob'')"
  using authenticated_userid_first_accepted
    [where self = "\<lparr> policies = [backend_b, backend_a, backend_c, backend_session],
                     callback = Some (lenient_callback only_bob) \<rparr>"
       and f = "lenient_callback only_bob" and pre = "[backend_b, backend_a]"
       and p = backend_c and post = "[backend_session]" and request = "()"
       and u = "''bob''" and groups = "[''group:staff'']"]
  by (simp add: backends lenient_callback_def only_bob_def)

section \<open>effective\_principals\<close>

lemma set_set_add: "set (set_add x xs) = insert x (set xs)"
  by (auto simp: set_add_def)

lemma distinct_set_add: "distinct xs \<Longrightarrow> distinct (set_add x xs)"
  by (simp add: set_add_def)

lemma set_set_update: "set (set_update xs ys) = set xs \<union> set ys"
  unfolding set_update_def by (induction ys arbitrary: xs) (auto simp: set_set_add)

lemma distinct_set_update: "distinct xs \<Longrightarrow> distinct (set_update xs ys)"
  unfolding set_update_def by (induction ys arbitrary: xs) (auto simp: distinct_set_add)

lemma set_effective_principals_loop:
  "set (effective_principals_loop principals request ps) =
     set principals \<union> (\<Union>p \<in> set ps. set (policy_effective_principals p request))"
  by (induction ps arbitrary: principals) (auto simp: set_set_update)

lemma distinct_effective_principals_loop:
  "distinct principals \<Longrightarrow> distinct (effective_principals_loop principals request ps)"
  by (induction ps arbitrary: principals) (auto simp: distinct_set_update)

lemma Everyone_neq_Authenticated: "Everyone \<noteq> Authenticated"
  by (simp add: Everyone_def Authenticated_def)

text \<open>
  Claim C3, as stated: the result contains \<open>Authenticated\<close> only if a callback is
  configured and \<open>unauthenticated_userid\<close> is not \<open>None\<close>. A backend's own principals
  are united into the result, so a backend that lists \<open>Authenticated\<close> puts it there
  with no callback configured.
\<close>

theorem effective_principals_backend_authenticated:
  "callback \<lparr> policies = [backend_session], callback = None \<rparr> = None
 \<and> (case effective_principals \<lparr> policies = [backend_session], callback = None \<rparr> () of
       Inl e \<Rightarrow> False
     | Inr ps \<Rightarrow> Authenticated \<in> set ps)"
  by (simp add: effective_principals_def backends set_update_def set_add_def
        Everyone_def Authenticated_def)

text \<open>
  Claim C3, amended. \<open>effective_principals\<close> returns a collection exactly when no
  callback is configured, or \<open>unauthenticated_userid\<close> is \<open>None\<close>, or the callback,
  called with the userid and the request, returns groups. The collection it returns
  contains \<open>Everyone\<close>, has no duplicates, includes every backend's principals, and
  contains \<open>Authenticated\<close> if and only if a callback is configured and
  \<open>unauthenticated_userid\<close> is not \<open>None\<close>, or some backend's principals contain it.
\<close>

theorem effective_principals_result:
  "((\<exists>ps. effective_principals self request = Inr ps) \<longleftrightarrow>
      (case callback self of
         None \<Rightarrow> True
       | Some f \<Rightarrow>
           (case unauthenticated_userid self request of
              None \<Rightarrow> True
            | Some u \<Rightarrow> (\<exists>groups. f [ArgUserid u, ArgRequest request] = Inr (Some groups)))))
 \<and> (\<forall>ps. effective_principals self request = Inr ps \<longrightarrow>
        Everyone \<in> set ps \<and> distinct ps
      \<and> (\<forall>p \<in> set (policies self). set (policy_effective_principals p request) \<subseteq> set ps)
      \<and> (Authenticated \<in> set ps \<longleftrightarrow>
           (callback self \<noteq> None \<and> unauthenticated_userid self request \<noteq> None)
         \<or> (\<exists>p \<in> set (policies self). Authenticated \<in> set (policy_effective_principals p request))))"
proof -
  let ?base = "effective_principals_loop (set_update [] [Everyone]) request (policies self)"
  have base_set: "set ?base = {Everyone} \<union> (\<Union>p \<in> set (policies self). set (policy_effective_principals p request))"
    by (simp add: set_effective_principals_loop set_set_update)
  have base_distinct: "distinct ?base"
    by (simp add: distinct_effective_principals_loop distinct_set_update)
  have returns: "(\<exists>ps. effective_principals self request = Inr ps) \<longleftrightarrow>
      (case callback self of
         None \<Rightarrow> True
       | Some f \<Rightarrow>
           (case unauthenticated_userid self request of
              None \<Rightarrow> True
            | Some u \<Rightarrow> (\<exists>groups. f [ArgUserid u, ArgRequest request] = Inr (Some groups))))"
    by (auto simp: effective_principals_def Let_def split: option.splits sum.splits)
  have props: "Everyone \<in> set ps \<and> distinct ps
      \<and> (\<forall>p \<in> set (policies self). set (policy_effective_principals p request) \<subseteq> set ps)
      \<and> (Authenticated \<in> set ps \<longleftrightarrow>
           (callback self \<noteq> None \<and> unauthenticated_userid self request \<noteq> None)
         \<or> (\<exists>p \<in> set (policies self). Authenticated \<in> set (policy_effective_principals p request)))"
    if ret: "effective_principals self request = Inr ps" for ps
  proof (cases "callback self \<noteq> None \<and> unauthenticated_userid self request \<noteq> None")
    case False
    with ret have "ps = ?base"
      by (auto simp: effective_principals_def Let_def split: option.splits)
    with base_set base_distinct False Everyone_neq_Authenticated show ?thesis
      by auto
  next
    case True
    then obtain f u where f: "callback self = Some f" and u: "unauthenticated_userid self request = Some u"
      by auto
    with ret obtain groups where "ps = set_update (set_add Authenticated (set_add u ?base)) groups"
      by (auto simp: effective_principals_def Let_def split: option.splits sum.splits)
    then have "set ps = insert Authenticated (insert u (set ?base)) \<union> set groups" and "distinct ps"
      using base_distinct
      by (simp_all add: set_set_update set_set_add distinct_set_update distinct_set_add)
    with base_set True show ?thesis by auto
  qed
  from returns props show ?thesis by blast
qed

theorem effective_principals_result_witness:
  "effective_principals
     \<lparr> policies = [backend_a, backend_c], callback = Some (lenient_callback only_bob) \<rparr> ()
   = Inl TypeError
 \<and> effective_principals
     \<lparr> policies = [backend_b, backend_c], callback = Some (lenient_callback only_bob) \<rparr> ()
   = Inr [''system.Everyone'', ''group:users'', ''bob'', ''system.Authenticated'', ''group:staff'']"
  using effective_principals_result
    [of "\<lparr> policies = [backend_a, backend_c], callback = Some (lenient_callback only_bob) \<rparr>" "()"]
    effective_principals_result
    [of "\<lparr> policies = [backend_b, backend_c], callback = Some (lenient_callback only_bob) \<rparr>" "()"]
  by (simp add: effective_principals_def unauthenticated_userid_def backends set_update_def
        set_add_def Everyone_def Authenticated_def lenient_callback_def only_bob_def)

text \<open>
  Claim C7. Every call of the callback is to pass one argument, the userid, in
  \<open>authenticated_userid\<close> and in \<open>effective_principals\<close> alike. With a callback that
  takes exactly the userid, \<open>authenticated_userid\<close> succeeds and \<open>effective_principals\<close>
  fails with \<open>TypeError\<close>: it passes the request as a second argument.
\<close>

theorem callback_arity_differs:
  "authenticated_userid
     \<lparr> policies = [backend_c], callback = Some (userid_callback only_bob) \<rparr> ()
   = Inr (Some ''bob'')
 \<and> effective_principals
     \<lparr> policies = [backend_c], callback = Some (userid_callback only_bob) \<rparr> ()
   = Inl TypeError"
  by (simp add: authenticated_userid_def effective_principals_def unauthenticated_userid_def
        backends userid_callback_def only_bob_def)

text \<open>
  Claim C8. If a callback is configured, \<open>unauthenticated_userid\<close> gives a userid, and
  the callback returns \<open>None\<close> for it, then \<open>effective_principals\<close> raises instead of
  returning a collection.
\<close>

theorem effective_principals_none_groups_raises:
  assumes "callback self = Some f"
    and "unauthenticated_userid self request = Some u"
    and "f [ArgUserid u, ArgRequest request] = Inr None"
  shows "effective_principals self request = Inl TypeError"
  using assms by (simp add: effective_principals_def)

theorem effective_principals_none_groups_raises_witness:
  "effective_principals
     \<lparr> policies = [backend_a], callback = Some (lenient_callback only_bob) \<rparr> () = Inl TypeError"
  using effective_principals_none_groups_raises
    [where self = "\<lparr> policies = [backend_a], callback = Some (lenient_callback only_bob) \<rparr>"
       and f = "lenient_callback only_bob" and request = "()" and u = "''alice''"]
  by (simp add: unauthenticated_userid_def backends lenient_callback_def only_bob_def)

section \<open>Headers: remember and forget\<close>

lemma remember_loop_concat:
  "remember_loop headers request who kw ps =
     headers @ concat (map (\<lambda>p. policy_remember p request who kw) ps)"
  by (induction ps arbitrary: headers) simp_all

lemma forget_loop_concat:
  "forget_loop headers request ps = headers @ concat (map (\<lambda>p. policy_forget p request) ps)"
  by (induction ps arbitrary: headers) simp_all

text \<open>
  Claim C4. For every backend list, request, principal and options, \<open>remember\<close> is the
  concatenation in list order of every backend's \<open>remember\<close> result, and \<open>forget\<close> is
  the concatenation in list order of every backend's \<open>forget\<close> result. Every backend
  takes part: none is skipped after headers were produced or for an empty result.
\<close>

theorem remember_forget_concat:
  "remember self request who kw =
     concat (map (\<lambda>p. policy_remember p request who kw) (policies self))
   \<and> forget self request = concat (map (\<lambda>p. policy_forget p request) (policies self))"
  by (simp add: remember_def forget_def remember_loop_concat forget_loop_concat)

theorem remember_forget_concat_witness:
  "remember \<lparr> policies = [fixed_policy 1 None [] [(''H1'', ''a'')],
                           fixed_policy 2 None [] [],
                           fixed_policy 3 None [] [(''H2'', ''b''), (''H3'', ''c'')]],
              callback = None \<rparr> () ''alice'' ()
     = [(''H1'', ''a''), (''H2'', ''b''), (''H3'', ''c'')]"
  using remember_forget_concat
    [of "\<lparr> policies = [fixed_policy 1 None [] [(''H1'', ''a'')],
                        fixed_policy 2 None [] [],
                        fixed_policy 3 None [] [(''H2'', ''b''), (''H3'', ''c'')]],
           callback = None \<rparr>" "()" "''alice''" "()"]
  by (simp add: fixed_policy_def)

section \<open>Policy definitions in the settings\<close>

lemma startswith_prefix: "startswith (''multiauth.policy.'' @ s) ''multiauth.policy.''"
  by (simp add: startswith_def)

lemma startswith_decompose:
  "startswith s pre \<Longrightarrow> s = pre @ drop (length pre) s"
  unfolding startswith_def by (metis append_take_drop_id)

lemma split_dot1_key:
  "CHR ''.'' \<notin> set name \<Longrightarrow> split_dot1 (name @ ''.'' @ param) = [name, param]"
proof -
  assume "CHR ''.'' \<notin> set name"
  then have *: "\<And>c. c \<in> set name \<Longrightarrow> c \<noteq> CHR ''.''" by auto
  show ?thesis
    by (simp add: split_dot1_def takeWhile_append2 [OF *] dropWhile_append2 [OF *])
qed

lemma split_dot1_two:
  assumes "split_dot1 s = [a, b]"
  shows "s = a @ ''.'' @ b"
proof -
  let ?P = "\<lambda>c. c \<noteq> CHR ''.''"
  from assms have dot: "CHR ''.'' \<in> set s"
    by (auto simp: split_dot1_def split: if_splits)
  with assms have a: "a = takeWhile ?P s" and b: "b = tl (dropWhile ?P s)"
    by (simp_all add: split_dot1_def)
  from dot have ne: "dropWhile ?P s \<noteq> []"
    by (simp add: dropWhile_eq_Nil_conv) 
  then have "hd (dropWhile ?P s) = CHR ''.''"
    using hd_dropWhile [of ?P s] by simp
  with ne have "dropWhile ?P s = CHR ''.'' # b"
    unfolding b by (cases "dropWhile ?P s") simp_all
  then show ?thesis
    using takeWhile_dropWhile_id [of ?P s] a by simp
qed

lemma policy_definitions_loop_step:
  assumes "policy_definitions_loop defs ((k, v) # rest) = Inr defs'"
  shows "(\<not> startswith k ''multiauth.policy.'' \<and> policy_definitions_loop defs rest = Inr defs')
       \<or> (startswith k ''multiauth.policy.'' \<and>
           (\<exists>pn sn. split_dot1 (drop (length ''multiauth.policy.'') k) = [pn, sn] \<and>
              policy_definitions_loop
                (defs(pn \<mapsto> (case defs pn of None \<Rightarrow> Map.empty | Some d \<Rightarrow> d)(sn \<mapsto> v))) rest
              = Inr defs'))"
proof (cases "startswith k ''multiauth.policy.''")
  case False
  with assms show ?thesis by simp
next
  case True
  with assms show ?thesis
    by (simp add: Let_def split: list.splits)
qed

lemma policy_definitions_loop_dom:
  "policy_definitions_loop defs st = Inr defs' \<Longrightarrow> defs name \<noteq> None \<Longrightarrow> defs' name \<noteq> None"
proof (induction st arbitrary: defs)
  case Nil
  then show ?case by simp
next
  case (Cons kv rest)
  obtain k v where kv: "kv = (k, v)" by (cases kv)
  from Cons.prems(1) [unfolded kv, THEN policy_definitions_loop_step] show ?case
  proof (elim disjE conjE exE)
    assume "policy_definitions_loop defs rest = Inr defs'"
    then show ?thesis using Cons.IH Cons.prems(2) by blast
  next
    fix pn sn
    assume "policy_definitions_loop
              (defs(pn \<mapsto> (case defs pn of None \<Rightarrow> Map.empty | Some d \<Rightarrow> d)(sn \<mapsto> v))) rest
            = Inr defs'"
    from Cons.IH [OF this] Cons.prems(2) show ?thesis by simp
  qed
qed

lemma policy_definitions_loop_declared:
  assumes "policy_definitions_loop defs st = Inr defs'"
    and "(''multiauth.policy.'' @ name @ ''.'' @ param, v) \<in> set st"
    and "CHR ''.'' \<notin> set name"
  shows "defs' name \<noteq> None"
  using assms(1,2)
proof (induction st arbitrary: defs)
  case Nil
  then show ?case by simp
next
  case (Cons kv rest)
  obtain k w where kv: "kv = (k, w)" by (cases kv)
  let ?key = "''multiauth.policy.'' @ name @ ''.'' @ param"
  from Cons.prems(1) [unfolded kv, THEN policy_definitions_loop_step] show ?case
  proof (elim disjE conjE exE)
    assume ns: "\<not> startswith k ''multiauth.policy.''"
      and loop: "policy_definitions_loop defs rest = Inr defs'"
    from ns have "k \<noteq> ?key" using startswith_prefix [of "name @ ''.'' @ param"] by auto
    with Cons.prems(2) kv have "(?key, v) \<in> set rest" by auto
    with Cons.IH loop show ?thesis by blast
  next
    fix pn sn
    assume split: "split_dot1 (drop (length ''multiauth.policy.'') k) = [pn, sn]"
      and loop: "policy_definitions_loop
              (defs(pn \<mapsto> (case defs pn of None \<Rightarrow> Map.empty | Some d \<Rightarrow> d)(sn \<mapsto> w))) rest
            = Inr defs'"
    show ?thesis
    proof (cases "k = ?key")
      case True
      with split have "pn = name"
        using split_dot1_key [OF assms(3), of param] by simp
      then show ?thesis
        using policy_definitions_loop_dom [OF loop, of name] by simp
    next
      case False
      with Cons.prems(2) kv have "(?key, v) \<in> set rest" by auto
      with Cons.IH loop show ?thesis by blast
    qed
  qed
qed

lemma policy_definitions_loop_use:
  assumes "policy_definitions_loop defs st = Inr defs'"
    and "defs' name = Some d" and "d ''use'' \<noteq> None"
  shows "(\<exists>d0. defs name = Some d0 \<and> d0 ''use'' \<noteq> None)
       \<or> ''multiauth.policy.'' @ name @ ''.use'' \<in> fst ` set st"
  using assms(1)
proof (induction st arbitrary: defs)
  case Nil
  with assms(2,3) show ?case by simp
next
  case (Cons kv rest)
  obtain k w where kv: "kv = (k, w)" by (cases kv)
  from Cons.prems(1) [unfolded kv, THEN policy_definitions_loop_step] show ?case
  proof (elim disjE conjE exE)
    assume "policy_definitions_loop defs rest = Inr defs'"
    from Cons.IH [OF this] show ?thesis by auto
  next
    fix pn sn
    assume sw: "startswith k ''multiauth.policy.''"
      and split: "split_dot1 (drop (length ''multiauth.policy.'') k) = [pn, sn]"
      and loop: "policy_definitions_loop
              (defs(pn \<mapsto> (case defs pn of None \<Rightarrow> Map.empty | Some d \<Rightarrow> d)(sn \<mapsto> w))) rest
            = Inr defs'"
    from startswith_decompose [OF sw] split_dot1_two [OF split]
    have k: "k = ''multiauth.policy.'' @ pn @ ''.'' @ sn" by simp
    from Cons.IH [OF loop] show ?thesis
    proof
      assume "\<exists>d0. (defs(pn \<mapsto> (case defs pn of None \<Rightarrow> Map.empty | Some d \<Rightarrow> d)(sn \<mapsto> w))) name
                 = Some d0 \<and> d0 ''use'' \<noteq> None"
      then show ?thesis using k kv
        by (cases "pn = name"; cases "sn = ''use''") (auto split: option.splits)
    next
      assume "''multiauth.policy.'' @ name @ ''.use'' \<in> fst ` set rest"
      then show ?thesis by simp
    qed
  qed
qed

lemma policy_factory_for_keeps:
  assumes "policy_factory_for h config defs n = Inr (fk, config', defs')"
    and "defs name = Some d" and "d ''use'' = None"
  shows "n \<noteq> name \<and> defs' name = Some d"
  using assms
  by (auto simp: policy_factory_for_def Let_def split: option.splits sum.splits prod.splits)

lemma policy_factories_loop_missing_use:
  assumes "defs name = Some d" and "d ''use'' = None" and "name \<in> set names"
  shows "\<exists>e. policy_factories_loop h config defs acc names = Inl e"
  using assms
proof (induction names arbitrary: config defs acc)
  case Nil
  then show ?case by simp
next
  case (Cons n rest)
  show ?case
  proof (cases "policy_factory_for h config defs n")
    case (Inl e)
    then show ?thesis by simp
  next
    case (Inr res)
    obtain fk config' defs' where res: "res = (fk, config', defs')" by (cases res)
    from policy_factory_for_keeps [OF Inr [unfolded res] Cons.prems(1,2)]
    have "n \<noteq> name" and keep: "defs' name = Some d" by simp_all
    with Cons.prems(3) have "name \<in> set rest" by auto
    then have "\<exists>e. policy_factories_loop h config' defs' (acc @ [fk]) rest = Inl e"
      using keep Cons.prems(2) by (intro Cons.IH)
    with Inr res show ?thesis by simp
  qed
qed

lemma includeme_unfold:
  assumes "includeme h config = Inr inst"
  obtains groupfinder defs fs config' where
    "policy_definitions_loop Map.empty (settings config) = Inr defs"
    "policy_factories_loop h config defs []
       (rev (split_ws (case map_of (settings config) ''multiauth.policies'' of
                         None \<Rightarrow> [] | Some s \<Rightarrow> s))) = Inr (fs, config')"
    "inst = \<lparr> install_config =
               config'\<lparr> calls := calls config' @
                 [Set_authentication_policy \<lparr> policies = [], callback = groupfinder \<rparr>,
                  Action_grab_policies,
                  Set_authorization_policy ACLAuthorizationPolicy] \<rparr>,
             authn_policy = \<lparr> policies = [], callback = groupfinder \<rparr>,
             policy_factories = fs \<rparr>"
  using assms
  by (auto simp: includeme_def Let_def split: sum.splits option.splits prod.splits)

text \<open>
  Claim C9, as stated: any policy name with a parameter setting and no \<open>use\<close> setting
  makes \<open>includeme\<close> raise. A name that is not listed in \<open>multiauth.policies\<close> is never
  looked up, and \<open>includeme\<close> completes.
\<close>

theorem includeme_unlisted_missing_use_succeeds:
  "(''multiauth.policy.spare.userid'', ''local1'') \<in> set (settings (config_with settings_unlisted []))
 \<and> ''multiauth.policy.spare.use'' \<notin> fst ` set (settings (config_with settings_unlisted []))
 \<and> (case includeme example_host (config_with settings_unlisted []) of
       Inl e \<Rightarrow> False
     | Inr inst \<Rightarrow> True)"
  by (simp add: includeme_eval settings_unlisted_def)

text \<open>
  Claim C9, amended. If a policy name (one without a dot) has a
  \<open>multiauth.policy.<name>.<param>\<close> setting, has no \<open>multiauth.policy.<name>.use\<close>
  setting, and is listed in \<open>multiauth.policies\<close>, then \<open>includeme\<close> raises.
\<close>

theorem includeme_missing_use_raises:
  assumes "(''multiauth.policy.'' @ name @ ''.'' @ param, v) \<in> set (settings config)"
    and "CHR ''.'' \<notin> set name"
    and "''multiauth.policy.'' @ name @ ''.use'' \<notin> fst ` set (settings config)"
    and "map_of (settings config) ''multiauth.policies'' = Some listed"
    and "name \<in> set (split_ws listed)"
  shows "\<exists>e. includeme h config = Inl e"
proof (cases "includeme h config")
  case (Inl e)
  then show ?thesis by blast
next
  case (Inr inst)
  then obtain defs fs config' where
    defs: "policy_definitions_loop Map.empty (settings config) = Inr defs"
    and loop: "policy_factories_loop h config defs [] (rev (split_ws listed)) = Inr (fs, config')"
    using assms(4) by (auto elim!: includeme_unfold)
  from policy_definitions_loop_declared [OF defs assms(1,2)]
  obtain d where d: "defs name = Some d" by auto
  from policy_definitions_loop_use [OF defs d] assms(3) have "d ''use'' = None"
    by auto
  with d assms(5) have "\<exists>e. policy_factories_loop h config defs [] (rev (split_ws listed)) = Inl e"
    using policy_factories_loop_missing_use
      [where defs = defs and name = name and d = d and names = "rev (split_ws listed)"]
    by simp
  with loop show ?thesis by simp
qed

theorem includeme_missing_use_raises_witness:
  "includeme example_host (config_with settings_listed []) = Inl KeyError"
proof -
  have "\<exists>e. includeme example_host (config_with settings_listed []) = Inl e"
    using includeme_missing_use_raises
      [where name = "''spare''" and param = "''userid''" and v = "''local1''"
         and config = "config_with settings_listed []" and listed = "''a spare''"
         and h = example_host]
    by (simp add: config_with_def settings_listed_def split_ws_def is_space_def)
  then show ?thesis
    by (simp add: includeme_eval settings_listed_def)
qed

section \<open>The authorization policy\<close>

text \<open>
  Claim C10, as stated: the default ACL authorization policy is registered only when
  the host has none configured. \<open>includeme\<close> does not look: with an authorization
  policy already set on the configurator, its last call still sets the ACL policy.
\<close>

theorem includeme_sets_authorization_policy_when_configured:
  "Set_authorization_policy (HostAuthorizationPolicy ''custom'')
     \<in> set (calls (config_with settings_abc
                      [Set_authorization_policy (HostAuthorizationPolicy ''custom'')]))
 \<and> (case includeme example_host
            (config_with settings_abc
               [Set_authorization_policy (HostAuthorizationPolicy ''custom'')]) of
       Inl e \<Rightarrow> False
     | Inr inst \<Rightarrow>
         last (calls (install_config inst)) = Set_authorization_policy ACLAuthorizationPolicy)"
  by (simp add: includeme_eval settings_abc_def)

text \<open>
  Claim C10, amended. Whenever \<open>includeme\<close> completes, its last call on the
  configurator is \<open>set_authorization_policy\<close> with a new ACL authorization policy,
  whatever was configured before; which policy prevails is for the host to decide.
\<close>

theorem includeme_always_sets_authorization_policy:
  assumes "includeme h config = Inr inst"
  shows "\<exists>before. calls (install_config inst) =
           before @ [Set_authorization_policy ACLAuthorizationPolicy]"
  using assms by (auto elim!: includeme_unfold)

theorem includeme_always_sets_authorization_policy_witness:
  "(case includeme example_host (config_with settings_unlisted []) of
      Inl e \<Rightarrow> False
    | Inr inst \<Rightarrow>
        (\<exists>before. calls (install_config inst) =
           before @ [Set_authorization_policy ACLAuthorizationPolicy]))"
proof -
  obtain inst where inst: "includeme example_host (config_with settings_unlisted []) = Inr inst"
    by (simp add: includeme_eval settings_unlisted_def)
  from includeme_always_sets_authorization_policy [OF inst] inst show ?thesis
    by simp
qed

section \<open>grab\_policies\<close>

lemma policy_definitions_loop_no_groupfinder:
  "policy_definitions_loop defs st = Inr defs'
     \<Longrightarrow> map_of st ''multiauth.policy.groupfinder'' = None"
proof (induction st arbitrary: defs)
  case Nil
  then show ?case by simp
next
  case (Cons kv rest)
  obtain k v where kv: "kv = (k, v)" by (cases kv)
  have key: "k \<noteq> ''multiauth.policy.groupfinder''"
  proof
    assume "k = ''multiauth.policy.groupfinder''"
    with Cons.prems kv show False
      by (simp add: startswith_def split_dot1_def)
  qed
  from Cons.prems [unfolded kv, THEN policy_definitions_loop_step]
  obtain defs1 where "policy_definitions_loop defs1 rest = Inr defs'" by blast
  from Cons.IH [OF this] key kv show ?case by simp
qed

lemma policy_factories_loop_yield:
  assumes "factories_yield h config defs names reg bs"
  shows "\<exists>fs config'. policy_factories_loop h config defs acc names = Inr (acc @ fs, config')
           \<and> factory_results fs reg (map Some bs)"
  using assms
proof (induction names arbitrary: config defs acc reg bs)
  case Nil
  then show ?case by (cases bs) simp_all
next
  case (Cons n names)
  from Cons.prems obtain b rest where bs: "bs = b # rest"
    by (cases bs) simp_all
  from Cons.prems [unfolded bs] obtain factory kw config1 defs1 where
    body: "policy_factory_for h config defs n = Inr ((factory, kw), config1, defs1)"
    by (cases "policy_factory_for h config defs n") auto
  from Cons.prems [unfolded bs] body obtain r reg1 where
    call0: "factory kw reg = Inr (r, reg1)"
    by (cases "factory kw reg") auto
  from Cons.prems [unfolded bs] body call0 have
    call: "factory kw reg = Inr (Some b, reg1)"
    and rest: "factories_yield h config1 defs1 names reg1 rest"
    by (cases r; simp)+
  from Cons.IH [OF rest, of "acc @ [(factory, kw)]"] obtain fs config' where
    loop: "policy_factories_loop h config1 defs1 (acc @ [(factory, kw)]) names
             = Inr ((acc @ [(factory, kw)]) @ fs, config')"
    and res: "factory_results fs reg1 (map Some rest)"
    by blast
  have "policy_factories_loop h config defs acc (n # names) = Inr (acc @ (factory, kw) # fs, config')"
    using body loop by simp
  moreover have "factory_results ((factory, kw) # fs) reg (map Some bs)"
    using call res by (simp add: bs)
  ultimately show ?case by blast
qed

lemma grab_policies_prepends:
  assumes "factory_results fs reg (map Some xs)"
    and "\<forall>x \<in> set xs. truthy x"
    and "distinct_adj (map oid (rev xs @ pols))"
  shows "\<exists>reg'. grab_policies fs reg pols = Inr (reg', rev xs @ pols)"
  using assms
proof (induction fs arbitrary: reg xs pols)
  case Nil
  then show ?case by (cases xs) simp_all
next
  case (Cons fk fs)
  obtain factory kw where fk: "fk = (factory, kw)" by (cases fk)
  from Cons.prems(1) obtain x rest where xs: "xs = x # rest"
    by (cases xs) (simp_all add: fk)
  from Cons.prems(1) obtain reg1 where
    call: "factory kw reg = Inr (Some x, reg1)" and rest: "factory_results fs reg1 (map Some rest)"
    by (auto simp: fk xs split: sum.splits prod.splits)
  from Cons.prems(2) have true: "truthy x" and trues: "\<forall>x \<in> set rest. truthy x"
    by (simp_all add: xs)
  from Cons.prems(3) have adj: "distinct_adj (map oid (rev rest @ x # pols))"
    by (simp add: xs)
  from Cons.IH [OF rest trues adj] obtain reg' where
    IH: "grab_policies fs reg1 (x # pols) = Inr (reg', rev rest @ x # pols)" by blast
  from adj have "distinct_adj (map oid (x # pols))"
    by (simp add: distinct_adj_append_iff)
  then have guard: "pols = [] \<or> oid x \<noteq> oid (hd pols)"
    by (cases pols) simp_all
  show ?case
    using call IH guard true by (cases pols) (auto simp: fk xs)
qed

text \<open>
  Claim C5, as stated: whenever every declared name's factory yields a backend, the
  list after setup is the list of these backends in declaration order. Two adjacent
  declarations whose factories yield the same object leave it in the list once, and a
  declaration whose factory yields an object that is false leaves nothing in the list.
\<close>

theorem setup_list_differs_from_declarations:
  "(case policy_definitions_loop Map.empty settings_shared of
      Inl e \<Rightarrow> False
    | Inr defs \<Rightarrow>
        factories_yield example_host (config_with settings_shared []) defs
          (rev [''a'', ''b'']) None (rev [backend_a, backend_a]))
 \<and> (case includeme example_host (config_with settings_shared []) of
      Inl e \<Rightarrow> False
    | Inr inst \<Rightarrow>
        (case run_grab_policies inst None of
           Inl e \<Rightarrow> False
         | Inr (reg, m) \<Rightarrow> policies m = [backend_a]))
 \<and> (case policy_definitions_loop Map.empty settings_falsy of
      Inl e \<Rightarrow> False
    | Inr defs \<Rightarrow>
        factories_yield example_host (config_with settings_falsy []) defs
          (rev [''a'', ''f'']) None (rev [backend_a, backend_falsy]))
 \<and> (case includeme example_host (config_with settings_falsy []) of
      Inl e \<Rightarrow> False
    | Inr inst \<Rightarrow>
        (case run_grab_policies inst None of
           Inl e \<Rightarrow> False
         | Inr (reg, m) \<Rightarrow> policies m = [backend_a]))"
  by (simp add: includeme_eval settings_shared_def settings_falsy_def backends)

text \<open>
  Claim C5, amended. Let the settings parse into policy definitions, and let the
  declared names, taken in reverse declaration order through the loop of \<open>includeme\<close>
  and then through the calls of \<open>grab_policies\<close>, each get a factory that yields a
  backend: the \<open>i\<close>-th declared name the backend \<open>bs ! i\<close>. If every one of these
  objects is true and no two adjacent declarations yield the same object, then
  \<open>includeme\<close> completes and \<open>grab_policies\<close> leaves the composite with the list \<open>bs\<close>,
  the backends in declaration order.
\<close>

theorem setup_declaration_order:
  assumes "policy_definitions_loop Map.empty (settings config) = Inr defs"
    and "policy_names = split_ws (case map_of (settings config) ''multiauth.policies'' of
                                    None \<Rightarrow> [] | Some s \<Rightarrow> s)"
    and "factories_yield h config defs (rev policy_names) reg (rev bs)"
    and "\<forall>b \<in> set bs. truthy b"
    and "distinct_adj (map oid bs)"
  shows "\<exists>inst reg'. includeme h config = Inr inst
           \<and> run_grab_policies inst reg = Inr (reg', \<lparr> policies = bs, callback = None \<rparr>)"
proof -
  from policy_factories_loop_yield [OF assms(3), of "[]"] obtain fs config' where
    loop: "policy_factories_loop h config defs [] (rev policy_names) = Inr (fs, config')"
    and res: "factory_results fs reg (map Some (rev bs))"
    by auto
  let ?authn = "\<lparr> policies = [], callback = None \<rparr> :: ('a, 'b) multiauth"
  let ?inst = "\<lparr> install_config =
                   config'\<lparr> calls := calls config' @
                     [Set_authentication_policy ?authn, Action_grab_policies,
                      Set_authorization_policy ACLAuthorizationPolicy] \<rparr>,
                 authn_policy = ?authn, policy_factories = fs \<rparr>"
  have inst: "includeme h config = Inr ?inst"
    using policy_definitions_loop_no_groupfinder [OF assms(1)] assms(1) loop
    by (simp add: includeme_def Let_def assms(2) [symmetric])
  from assms(4,5) have "\<forall>x \<in> set (rev bs). truthy x"
    and "distinct_adj (map oid (rev (rev bs) @ []))" by simp_all
  from grab_policies_prepends [OF res this] obtain reg' where
    "grab_policies fs reg [] = Inr (reg', bs)" by auto
  then have "run_grab_policies ?inst reg = Inr (reg', \<lparr> policies = bs, callback = None \<rparr>)"
    by (simp add: run_grab_policies_def)
  with inst show ?thesis by blast
qed

theorem setup_declaration_order_witness:
  "(case includeme example_host (config_with settings_abc []) of
      Inl e \<Rightarrow> False
    | Inr inst \<Rightarrow>
        (case run_grab_policies inst None of
           Inl e \<Rightarrow> False
         | Inr (reg, m) \<Rightarrow> policies m = [backend_a, backend_b, backend_c]))"
proof -
  let ?config = "config_with settings_abc []"
  obtain defs where defs: "policy_definitions_loop Map.empty (settings ?config) = Inr defs"
    and yield: "factories_yield example_host ?config defs (rev [''a'', ''b'', ''c'']) None
                  (rev [backend_a, backend_b, backend_c])"
    by (simp add: includeme_eval settings_abc_def)
  have names: "[''a'', ''b'', ''c''] =
    split_ws (case map_of (settings ?config) ''multiauth.policies'' of
                None \<Rightarrow> [] | Some s \<Rightarrow> s)"
    by (simp add: config_with_def settings_abc_def split_ws_def is_space_def)
  have true: "\<forall>b \<in> set [backend_a, backend_b, backend_c]. truthy b"
    by (simp add: backends)
  have adj: "distinct_adj (map oid [backend_a, backend_b, backend_c])"
    by (simp add: backends)
  from setup_declaration_order [OF defs names yield true adj] show ?thesis
    by auto
qed

lemma grab_policies_unchanged:
  assumes "factory_results fs reg rs"
    and "\<forall>r \<in> set rs. case r of None \<Rightarrow> True
           | Some p \<Rightarrow> \<not> truthy p
               \<or> (case pols of [] \<Rightarrow> False | first # _ \<Rightarrow> oid p = oid first)"
  shows "\<exists>reg'. grab_policies fs reg pols = Inr (reg', pols)"
  using assms
proof (induction fs arbitrary: reg rs)
  case Nil
  then show ?case by simp
next
  case (Cons fk fs)
  obtain factory kw where fk: "fk = (factory, kw)" by (cases fk)
  from Cons.prems(1) obtain r rest where rs: "rs = r # rest"
    by (cases rs) (simp_all add: fk)
  from Cons.prems(1) obtain reg1 where
    call: "factory kw reg = Inr (r, reg1)" and rest: "factory_results fs reg1 rest"
    by (auto simp: fk rs split: sum.splits prod.splits)
  from Cons.prems(2) have "\<forall>r \<in> set rest. case r of None \<Rightarrow> True
           | Some p \<Rightarrow> \<not> truthy p
               \<or> (case pols of [] \<Rightarrow> False | first # _ \<Rightarrow> oid p = oid first)"
    by (simp add: rs)
  from Cons.IH [OF rest this] obtain reg' where
    IH: "grab_policies fs reg1 pols = Inr (reg', pols)" by blast
  from Cons.prems(2) have "case r of None \<Rightarrow> True
           | Some p \<Rightarrow> \<not> truthy p
               \<or> (case pols of [] \<Rightarrow> False | first # _ \<Rightarrow> oid p = oid first)"
    by (simp add: rs)
  then show ?case
    using call IH by (auto simp: fk split: option.splits list.splits)
qed

text \<open>
  Claim C6, as stated: running the population step when its results are already at
  the front of the list leaves the list unchanged. The guard looks at the first element
  only: run on the list \<open>[A, B, C]\<close> that they filled, the three factories put all three
  backends in again.
\<close>

theorem grab_policies_rerun_duplicates:
  "(case includeme example_host (config_with settings_abc []) of
      Inl e \<Rightarrow> False
    | Inr inst \<Rightarrow>
        grab_policies (policy_factories inst) None [] =
          Inr (None, [backend_a, backend_b, backend_c])
      \<and> grab_policies (policy_factories inst) None [backend_a, backend_b, backend_c] =
          Inr (None, [backend_a, backend_b, backend_c, backend_a, backend_b, backend_c]))"
  by (simp add: includeme_eval settings_abc_def backends)

text \<open>
  Claim C6, amended. In \<open>grab_policies\<close>, a factory that returns \<open>None\<close> leaves the list
  as it is; a factory whose result is the object at the front of the list leaves the
  list as it is; and a run in which every factory returns \<open>None\<close>, an object that is
  false, or the one object at the front of the list returns the list unchanged.
\<close>

theorem grab_policies_guard:
  "(factory kw reg = Inr (None, reg_next)
      \<longrightarrow> grab_policies ((factory, kw) # rest) reg pols = grab_policies rest reg_next pols)
 \<and> (factory kw reg = Inr (Some p, reg_next) \<and> oid p = oid first
      \<longrightarrow> grab_policies ((factory, kw) # rest) reg (first # others) =
            grab_policies rest reg_next (first # others))
 \<and> (factory_results fs reg rs
      \<and> (\<forall>r \<in> set rs. case r of None \<Rightarrow> True
            | Some p \<Rightarrow> \<not> truthy p
                \<or> (case pols of [] \<Rightarrow> False | first # _ \<Rightarrow> oid p = oid first))
      \<longrightarrow> (\<exists>reg'. grab_policies fs reg pols = Inr (reg', pols)))"
  using grab_policies_unchanged [of fs reg rs pols] by auto

theorem grab_policies_guard_witness:
  "grab_policies
     [(return_policy None, Map.empty), (make_policy backend_a, Map.empty),
      (make_policy backend_falsy, Map.empty)]
     None [backend_a, backend_b] = Inr (None, [backend_a, backend_b])"
  using grab_policies_guard
    [where factory = "return_policy None" and kw = Map.empty and reg = None and reg_next = None
       and rest = "[(make_policy backend_a, Map.empty), (make_policy backend_falsy, Map.empty)]"
       and pols = "[backend_a, backend_b]"
       and p = backend_a and first = backend_a and others = "[backend_b]"
       and fs = "[(return_policy None, Map.empty), (make_policy backend_a, Map.empty),
                  (make_policy backend_falsy, Map.empty)]"
       and rs = "[None, Some backend_a, Some backend_falsy]"]
  by (simp add: return_policy_def make_policy_def backends)

end
